theory Spec2Isabelle
  imports Main
begin

section \<open>Regular expressions as the audit uses them\<close>

text \<open>
  The audit tests rule patterns against regular-expression literals. Only a small
  fragment of the regular-expression language occurs in them: literal characters, the dot,
  the white-space class, bracketed ranges, sequencing, alternation, greedy repetition and
  the two anchors. No literal carries a flag, so \<open>^\<close> and \<open>$\<close> mean the two ends of
  the input, and \<open>test\<close> has no state between calls.

  Patterns are modelled as Isabelle strings, so a code unit is a value below 256; the
  white-space class and the line terminators are the members of the respective sets in that
  range.
\<close>

datatype regex =
    Eps
  | Lit char
  | Dot
  | WS
  | Cls "(char \<times> char) list"
  | Seq regex regex
  | Alt regex regex
  | Star regex
  | Bol
  | Eol

definition isLineTerminator :: "char \<Rightarrow> bool" where
  "isLineTerminator c = (c = CHR 0x0A \<or> c = CHR 0x0D)"

definition isWhiteSpace :: "char \<Rightarrow> bool" where
  "isWhiteSpace c =
     (c = CHR 0x09 \<or> c = CHR 0x0A \<or> c = CHR 0x0B \<or> c = CHR 0x0C \<or> c = CHR 0x0D
      \<or> c = CHR 0x20 \<or> c = CHR 0xA0)"

definition inRange :: "char \<Rightarrow> char \<times> char \<Rightarrow> bool" where
  "inRange c r = ((of_char (fst r) :: nat) \<le> of_char c \<and> (of_char c :: nat) \<le> of_char (snd r))"

definition step1 :: "(char \<Rightarrow> bool) \<Rightarrow> string \<Rightarrow> (string \<Rightarrow> 'a option) \<Rightarrow> 'a option" where
  "step1 P s k = (case s of [] \<Rightarrow> None | x # xs \<Rightarrow> if P x then k xs else None)"

text \<open>
  The backtracking matcher, in continuation-passing style: \<open>rmatch n r s k\<close> matches
  \<open>r\<close> at the front of the remaining input \<open>s\<close> (of a subject of length \<open>n\<close>) and hands
  the rest to \<open>k\<close>; the first alternative that lets \<open>k\<close> succeed wins, and repetition
  tries one more round before it tries to stop, as the engine does. A round of a
  repetition that consumes nothing is rejected.
\<close>

fun rmatch :: "nat \<Rightarrow> regex \<Rightarrow> string \<Rightarrow> (string \<Rightarrow> 'a option) \<Rightarrow> 'a option" where
  "rmatch n Eps s k = k s"
| "rmatch n (Lit c) s k = step1 (\<lambda>x. x = c) s k"
| "rmatch n Dot s k = step1 (\<lambda>x. \<not> isLineTerminator x) s k"
| "rmatch n WS s k = step1 isWhiteSpace s k"
| "rmatch n (Cls rs) s k = step1 (\<lambda>x. list_ex (inRange x) rs) s k"
| "rmatch n (Seq a b) s k = rmatch n a s (\<lambda>s'. rmatch n b s' k)"
| "rmatch n (Alt a b) s k =
     (case rmatch n a s k of Some x \<Rightarrow> Some x | None \<Rightarrow> rmatch n b s k)"
| "rmatch n (Star a) s k =
     (case rmatch n a s (\<lambda>s'. if length s' < length s then rmatch n (Star a) s' k else None) of
        Some x \<Rightarrow> Some x
      | None \<Rightarrow> k s)"
| "rmatch n Bol s k = (if length s = n then k s else None)"
| "rmatch n Eol s k = (if s = [] then k s else None)"

text \<open>
  A search without the global flag tries the start positions from left to right and
  keeps the first that succeeds.
\<close>

fun firstMatch :: "(string \<Rightarrow> 'a option) \<Rightarrow> string \<Rightarrow> 'a option" where
  "firstMatch f s =
     (case f s of
        Some m \<Rightarrow> Some m
      | None \<Rightarrow> (case s of [] \<Rightarrow> None | x # xs \<Rightarrow> firstMatch f xs))"

definition test :: "regex \<Rightarrow> string \<Rightarrow> bool" where
  "test r s = (firstMatch (\<lambda>t. rmatch (length s) r t (\<lambda>s'. Some ())) s \<noteq> None)"

fun str :: "string \<Rightarrow> regex" where
  "str [] = Eps"
| "str (c # cs) = Seq (Lit c) (str cs)"

fun seqs :: "regex list \<Rightarrow> regex" where
  "seqs [] = Eps"
| "seqs (r # rs) = Seq r (seqs rs)"

fun alts :: "regex list \<Rightarrow> regex" where
  "alts [] = Eps"
| "alts [r] = r"
| "alts (r # rs) = Alt r (alts rs)"

definition OneOrMore :: "regex \<Rightarrow> regex" where
  "OneOrMore r = Seq r (Star r)"

definition ZeroOrOne :: "regex \<Rightarrow> regex" where
  "ZeroOrOne r = Alt r Eps"

section \<open>The pattern classifier\<close>

subsection \<open>The danger taxonomy\<close>

definition shells :: regex where
  "shells = alts [str ''sh'', str ''bash'', str ''zsh'']"

definition RISKY_PATTERNS :: "regex list" where
  "RISKY_PATTERNS =
   [ str ''**'',
     str ''..'',
     Seq Bol (str ''/''),
     Seq Bol (str ''~/''),
     str ''/..'',
     Seq (Lit CHR ''/'') (OneOrMore (Lit CHR ''/'')),

     str ''sudo'',
     seqs [str ''su'', WS],
     seqs [str ''chmod'', OneOrMore WS, str ''777''],
     seqs [str ''chown'', OneOrMore WS, str ''root''],
     seqs [str ''chown'', OneOrMore WS, str ''0''],

     seqs [str ''dd'', OneOrMore WS, str ''if=''],
     str ''mkfs'',
     str ''fdisk'',
     str ''format'',
     str ''shutdown'',
     str ''reboot'',
     str ''halt'',
     str ''poweroff'',
     str ''killall'',
     seqs [str ''pkill'', OneOrMore WS, str ''-9''],

     seqs [str ''curl'', Star Dot, Lit CHR ''|'', Star WS, shells],
     seqs [str ''wget'', Star Dot, Lit CHR ''|'', Star WS, shells],
     seqs [str ''ssh'', WS],
     seqs [str ''scp'', WS],
     str ''rsync'',

     str ''eval'',
     str ''exec'',
     str ''system'',
     str ''popen'',
     str ''subprocess'',
     str ''spawn'',
     seqs [str ''node'', OneOrMore WS, str ''-e''],
     seqs [str ''python'', OneOrMore WS, str ''-c''],
     seqs [str ''perl'', OneOrMore WS, str ''-e''],
     seqs [str ''ruby'', OneOrMore WS, str ''-e''],

     str ''~/.ssh'',
     str ''/etc/passwd'',
     str ''/etc/shadow'',
     str ''/etc/sudoers'',
     str ''/root'',
     str ''/home'',
     str ''/var/log'',
     str ''/proc'',
     str ''/sys'',

     seqs [str ''mysql'', OneOrMore WS],
     seqs [str ''psql'', OneOrMore WS],
     seqs [str ''mongo'', OneOrMore WS],
     str ''redis-cli'',

     seqs [str ''npm'', OneOrMore WS, str ''install'', OneOrMore WS, Star Dot, str ''-g''],
     seqs [str ''pip'', OneOrMore WS, str ''install'', OneOrMore WS, Star Dot, str ''--user''],
     seqs [str ''apt-get'', OneOrMore WS, str ''install''],
     seqs [str ''yum'', OneOrMore WS, str ''install''],
     seqs [str ''brew'', OneOrMore WS, str ''install''],

     seqs [str ''git'', OneOrMore WS, str ''push'', OneOrMore WS, str ''--force''],
     seqs [str ''git'', OneOrMore WS, str ''reset'', OneOrMore WS, str ''--hard''],
     seqs [str ''git'', OneOrMore WS, str ''clean'', OneOrMore WS, str ''-fd''],

     seqs [Lit CHR 0x60, Star Dot, Lit CHR 0x60],
     seqs [str ''$('', Star Dot, str '')''],
     seqs [str ''>'', Star WS, str ''/dev/null''],
     seqs [str ''&'', Star WS, Eol],

     seqs [str '';'', Star WS, Eol],
     seqs [str ''|'', Star WS, Eol],
     seqs [str ''&&'', Star WS, Eol],
     seqs [str ''||'', Star WS, Eol],

     str ''PATH='',
     str ''LD_LIBRARY_PATH='',
     str ''LD_PRELOAD='' ]"

subsection \<open>The removal check\<close>

definition SAFE_RM_TARGETS :: "regex list" where
  "SAFE_RM_TARGETS =
   [ str ''node_modules'',
     str ''build'',
     str ''dist'',
     Seq Dot (str ''next''),
     str ''out'',
     str ''.cache'',
     str ''.tmp'',
     str ''temp'',
     str ''tmp'' ]"

definition DANGEROUS_RM_PATTERNS :: "regex list" where
  "DANGEROUS_RM_PATTERNS =
   [ str ''*'',
     str ''..'',
     Seq Bol (str ''/''),
     Seq Bol (str ''~/''),
     str ''..'' ]"

definition rmRfRegex :: regex where
  "rmRfRegex = seqs [str ''rm'', OneOrMore WS, str ''-rf'']"

definition isDangerousRmRf :: "string \<Rightarrow> bool" where
  "isDangerousRmRf pattern =
     (if test rmRfRegex pattern then
        (let hasDangerousPattern = list_ex (\<lambda>dangerous. test dangerous pattern) DANGEROUS_RM_PATTERNS
         in if hasDangerousPattern then True
            else (let hasSafeTarget = list_ex (\<lambda>safe. test safe pattern) SAFE_RM_TARGETS
                  in \<not> hasSafeTarget))
      else False)"

subsection \<open>Syntax validation\<close>

record SyntaxValidation =
  valid :: bool
  issues :: "string list"

definition countChar :: "char \<Rightarrow> string \<Rightarrow> nat" where
  "countChar c s = length (filter (\<lambda>x. x = c) s)"

fun startsWith :: "string \<Rightarrow> string \<Rightarrow> bool" where
  "startsWith s [] = True"
| "startsWith [] (c # cs) = False"
| "startsWith (x # xs) (c # cs) = (x = c \<and> startsWith xs cs)"

fun includesStr :: "string \<Rightarrow> string \<Rightarrow> bool" where
  "includesStr [] sub = (sub = [])"
| "includesStr (x # xs) sub = (startsWith (x # xs) sub \<or> includesStr xs sub)"

definition validatePatternSyntax :: "string \<Rightarrow> SyntaxValidation" where
  "validatePatternSyntax pattern =
     (let singleQuotes = countChar (CHR 0x27) pattern;
          doubleQuotes = countChar (CHR 0x22) pattern;
          backticks = countChar (CHR 0x60) pattern;
          i1 = (if singleQuotes mod 2 \<noteq> 0 then [''unterminated single quotes''] else []);
          i2 = (if doubleQuotes mod 2 \<noteq> 0 then [''unterminated double quotes''] else []);
          i3 = (if backticks mod 2 \<noteq> 0 then [''unterminated backticks''] else []);
          openParens = countChar CHR ''('' pattern;
          closeParens = countChar CHR '')'' pattern;
          openBrackets = countChar CHR ''['' pattern;
          closeBrackets = countChar CHR '']'' pattern;
          openBraces = countChar CHR ''{'' pattern;
          closeBraces = countChar CHR ''}'' pattern;
          i4 = (if openParens \<noteq> closeParens then [''unbalanced parentheses''] else []);
          i5 = (if openBrackets \<noteq> closeBrackets then [''unbalanced brackets''] else []);
          i6 = (if openBraces \<noteq> closeBraces then [''unbalanced braces''] else []);
          i7 = (if includesStr pattern ''/../''
                   \<or> includesStr pattern [CHR 0x5C, CHR ''.'', CHR ''.'', CHR 0x5C]
                then [''directory traversal (..)''] else []);
          i8 = (if includesStr pattern [CHR 0x00] then [''null bytes detected''] else []);
          i9 = (if length pattern > 1000 then [''pattern too long''] else []);
          issues = i1 @ i2 @ i3 @ i4 @ i5 @ i6 @ i7 @ i8 @ i9
      in \<lparr> valid = (length issues = 0), issues = issues \<rparr>)"

subsection \<open>The allow template\<close>

text \<open>
  \<open>buildSafeTemplate\<close> escapes every syntax character of each prefix before it joins the
  prefixes with a bar and compiles the result, so each prefix stands in the compiled
  expression as the literal text it is.
\<close>

definition identChars :: regex where
  "identChars = Cls [(CHR ''A'', CHR ''Z''), (CHR ''a'', CHR ''z''), (CHR ''0'', CHR ''9''),
                     (CHR ''_'', CHR ''_''), (CHR ''-'', CHR ''-'')]"

definition buildSafeTemplate :: "string list \<Rightarrow> regex" where
  "buildSafeTemplate prefixes =
     Alt (seqs [Bol, str '':'', alts (map str prefixes), str ''-'', OneOrMore identChars,
                ZeroOrOne (Seq (str '':'') (OneOrMore identChars)), Eol])
         (seqs [Bol, str '':clean'', Eol])"

section \<open>The health aggregator\<close>

subsection \<open>Data\<close>

datatype json =
    JNull
  | JBool bool
  | JNumber int
  | JString string
  | JArray "json list"
  | JObject "(string \<times> json) list"

record Finding =
  "file" :: string
  riskyPatterns :: "string list"
  nonBoolean :: "string list option"

record PrefixHealth =
  prefix :: string
  totalPatterns :: nat
  riskyCount :: nat
  safePatterns :: nat
  patterns :: "string list"
  riskyList :: "string list"

text \<open>
  The field \<open>riskyPatterns\<close> of \<open>PrefixHealth\<close> is a number where the field of the
  same name of \<open>Finding\<close> is a list; the record of the model calls the number
  \<open>riskyCount\<close>.

  The map from prefix to health record keeps its keys in insertion order; the record a
  key maps to is changed in place.
\<close>

type_synonym healthMap = "(string \<times> PrefixHealth) list"

fun mapSet :: "string \<Rightarrow> PrefixHealth \<Rightarrow> healthMap \<Rightarrow> healthMap" where
  "mapSet k v [] = [(k, v)]"
| "mapSet k v ((k', v') # m) = (if k' = k then (k, v) # m else (k', v') # mapSet k v m)"

definition mapGet :: "healthMap \<Rightarrow> string \<Rightarrow> PrefixHealth option" where
  "mapGet m k = map_of m k"

subsection \<open>One entry of the rule map\<close>

definition prefixMatch :: "string \<Rightarrow> string option" where
  "prefixMatch pattern =
     (let n = length pattern;
          group = OneOrMore (Cls [(CHR ''a'', CHR ''z''), (CHR ''A'', CHR ''Z''),
                                 (CHR ''0'', CHR ''9''), (CHR ''_'', CHR ''_''),
                                 (CHR ''-'', CHR ''-'')])
      in firstMatch (\<lambda>t.
           rmatch n (Seq Bol (str '':'')) t (\<lambda>s1.
             rmatch n group s1 (\<lambda>s2.
               rmatch n (str ''-'') s2 (\<lambda>s3.
                 Some (take (length s1 - length s2) s1))))) pattern)"

fun join :: "string \<Rightarrow> string list \<Rightarrow> string" where
  "join sep [] = []"
| "join sep [x] = x"
| "join sep (x # y # ys) = x @ sep @ join sep (y # ys)"

definition isRiskyPattern :: "string \<Rightarrow> bool" where
  "isRiskyPattern pattern = list_ex (\<lambda>riskyRegex. test riskyRegex pattern) RISKY_PATTERNS"

definition isAllowed :: "string list \<Rightarrow> string \<Rightarrow> bool" where
  "isAllowed explicitPrefixes pattern =
     (if length explicitPrefixes > 0 then test (buildSafeTemplate explicitPrefixes) pattern
      else True)"

definition isRisky :: "string list \<Rightarrow> string \<Rightarrow> bool" where
  "isRisky explicitPrefixes pattern =
     (isRiskyPattern pattern \<or> isDangerousRmRf pattern \<or> \<not> isAllowed explicitPrefixes pattern
      \<or> \<not> valid (validatePatternSyntax pattern))"

definition newHealth :: "string \<Rightarrow> PrefixHealth" where
  "newHealth p = \<lparr> prefix = p, totalPatterns = 0, riskyCount = 0, safePatterns = 0,
                   patterns = [], riskyList = [] \<rparr>"

definition prefixOf :: "string \<Rightarrow> string" where
  "prefixOf pattern = (case prefixMatch pattern of Some g \<Rightarrow> g | None \<Rightarrow> ''unknown'')"

text \<open>
  The body of the loop over the entries of one rule map. The state is the file's
  \<open>risky\<close> list, its \<open>nonBoolean\<close> list and the health map shared by all files.
\<close>

type_synonym fileAcc = "string list \<times> string list \<times> healthMap"

fun ingestEntry :: "string list \<Rightarrow> fileAcc \<Rightarrow> string \<times> json \<Rightarrow> fileAcc" where
  "ingestEntry explicitPrefixes (risky, nonBool, ph) (pattern, JBool val) =
     (let pfx = prefixOf pattern;
          health0 = (case mapGet ph pfx of Some h \<Rightarrow> h | None \<Rightarrow> newHealth pfx);
          health1 = health0 \<lparr> totalPatterns := totalPatterns health0 + 1,
                             patterns := patterns health0 @ [pattern] \<rparr>;
          syntaxValidation = validatePatternSyntax pattern;
          risky1 = (if \<not> valid syntaxValidation
                    then risky @ [''syntax issues: '' @ join '', '' (issues syntaxValidation)]
                    else risky)
      in if isRisky explicitPrefixes pattern
         then (risky1 @ [pattern], nonBool,
               mapSet pfx (health1 \<lparr> riskyCount := riskyCount health1 + 1,
                                       riskyList := riskyList health1 @ [pattern] \<rparr>) ph)
         else (risky1, nonBool,
               mapSet pfx (health1 \<lparr> safePatterns := safePatterns health1 + 1 \<rparr>) ph))"
| "ingestEntry explicitPrefixes (risky, nonBool, ph) (pattern, val) =
     (risky, nonBool @ [pattern], ph)"

subsection \<open>One settings file, and the batch\<close>

text \<open>
  \<open>loadSettings\<close> gives the parsed document, or nothing when the file cannot be read or
  parsed. The loop goes on to the rule map only when the document is truthy and its
  \<open>chat.tools.terminal.autoApprove\<close> member is an object that is not an array; the
  entries of an object are taken in the order the list gives them (a parsed object has
  each key once).
\<close>

definition truthy :: "json \<Rightarrow> bool" where
  "truthy d = (case d of JNull \<Rightarrow> False | JBool b \<Rightarrow> b | JNumber i \<Rightarrow> i \<noteq> 0
                | JString s \<Rightarrow> s \<noteq> [] | JArray xs \<Rightarrow> True | JObject kvs \<Rightarrow> True)"

definition member :: "json \<Rightarrow> string \<Rightarrow> json option" where
  "member d k = (case d of JObject kvs \<Rightarrow> map_of kvs k | _ \<Rightarrow> None)"

definition ruleMap :: "json option \<Rightarrow> (string \<times> json) list option" where
  "ruleMap loaded =
     (case loaded of
        None \<Rightarrow> None
      | Some d \<Rightarrow>
          if \<not> truthy d then None
          else (case member d ''chat.tools.terminal.autoApprove'' of
                  Some (JObject m) \<Rightarrow> Some m
                | _ \<Rightarrow> None))"

definition makeFinding :: "string \<Rightarrow> string list \<Rightarrow> string list \<Rightarrow> Finding option" where
  "makeFinding f risky nonBool =
     (if length risky \<noteq> 0 \<or> length nonBool \<noteq> 0
      then Some \<lparr> file = f, riskyPatterns = risky,
                  nonBoolean = (if length nonBool \<noteq> 0 then Some nonBool else None) \<rparr>
      else None)"

type_synonym auditState = "Finding list \<times> healthMap"

definition ingestFile :: "string list \<Rightarrow> auditState \<Rightarrow> string \<times> json option \<Rightarrow> auditState" where
  "ingestFile explicitPrefixes st fl =
     (case ruleMap (snd fl) of
        None \<Rightarrow> st
      | Some m \<Rightarrow>
          (case foldl (ingestEntry explicitPrefixes) ([], [], snd st) m of
             (risky, nonBool, ph) \<Rightarrow>
               (case makeFinding (fst fl) risky nonBool of
                  Some f \<Rightarrow> (fst st @ [f], ph)
                | None \<Rightarrow> (fst st, ph))))"

definition ingestFiles :: "string list \<Rightarrow> (string \<times> json option) list \<Rightarrow> auditState" where
  "ingestFiles explicitPrefixes settingsFiles = foldl (ingestFile explicitPrefixes) ([], []) settingsFiles"

subsection \<open>The report and the exit\<close>

text \<open>
  Which files a run audits is decided outside: the explicit settings file when one is
  given, the user settings and the directory walk otherwise. \<open>auditAutoApprove\<close>
  takes the resulting list, each path with what \<open>loadSettings\<close> returns for it.
  The lines written to the console are kept as values, one constructor for each
  \<open>console.log\<close> of the source.
\<close>

record Opts =
  allowPrefix :: "string option"
  failOnRisk :: bool
  json :: bool
  silent :: "bool option"
  scanPrefixes :: "bool option"

datatype status = Healthy | Critical | Mixed

datatype line =
    HealthHeader
  | HealthRule
  | HealthEntry status string nat nat nat
  | HealthRisky string
  | Blank
  | JsonDocument "Finding list" "string list" healthMap
  | AllSafe "string list"
  | FoundIssues nat
  | FileLine string
  | RiskyLine string
  | ExpectedSafe "string list"

record Outcome =
  printed :: "line list"
  exitCall :: "nat option"

definition splitOn :: "char \<Rightarrow> string \<Rightarrow> string list" where
  "splitOn sep s = foldr (\<lambda>x acc. if x = sep then [] # acc else (x # hd acc) # tl acc) s [[]]"

definition trim :: "string \<Rightarrow> string" where
  "trim s = rev (dropWhile isWhiteSpace (rev (dropWhile isWhiteSpace s)))"

definition given :: "string option \<Rightarrow> bool" where
  "given a = (case a of None \<Rightarrow> False | Some s \<Rightarrow> s \<noteq> [])"

definition flag :: "bool option \<Rightarrow> bool" where
  "flag b = (b = Some True)"

definition explicitPrefixesOf :: "Opts \<Rightarrow> string list" where
  "explicitPrefixesOf opts =
     (case allowPrefix opts of
        None \<Rightarrow> []
      | Some a \<Rightarrow> if a = [] then []
                  else filter (\<lambda>s. s \<noteq> []) (map trim (splitOn CHR '','' a)))"

text \<open>
  The percentage is \<open>Math.round((riskyPatterns / totalPatterns) * 100)\<close>, computed in
  double precision: the quotient is rounded to a double, its product with a hundred is
  rounded to a double again, and \<open>Math.round\<close> takes the nearest whole number, a half
  going up. The model keeps a double as a fraction whose denominator is a power of two.
  \<open>toDouble n d\<close> is the double nearest to the fraction \<open>n / d\<close>: the fraction is scaled
  by powers of two until its quotient has 53 bits, and the quotient is rounded to the
  nearest whole number, a tie going to the even one. The counts stay far inside the range
  where every whole number is a double and no exponent runs out.
\<close>

definition two52 :: int where
  "two52 = 2 ^ 52"

definition two53 :: int where
  "two53 = 2 ^ 53"

function scaleUp :: "int \<Rightarrow> int \<Rightarrow> int \<Rightarrow> int \<times> int" where
  "scaleUp n d p =
     (if n \<le> 0 \<or> d \<le> 0 \<or> two52 * d \<le> n then (n, p) else scaleUp (2 * n) d (2 * p))"
  by pat_completeness auto
termination
  by (relation "measure (\<lambda>(n, d, p). nat (two52 * d - n))") auto

function scaleDown :: "int \<Rightarrow> int \<Rightarrow> int \<Rightarrow> int \<times> int" where
  "scaleDown n d q =
     (if d \<le> 0 \<or> n < two53 * d then (d, q) else scaleDown n (2 * d) (2 * q))"
  by pat_completeness auto
termination
proof (relation "measure (\<lambda>(n, d, q). nat (n + 1 - two53 * d))")
  show "wf (measure (\<lambda>(n, d, q). nat (n + 1 - two53 * d)))" by simp
next
  fix n d q :: int
  assume a: "\<not> (d \<le> 0 \<or> n < two53 * d)"
  define c where "c = two53 * d"
  have "0 < two53" by (simp add: two53_def)
  with a have "0 < c" and "c \<le> n" by (simp_all add: c_def)
  then have "nat (n + 1 - 2 * c) < nat (n + 1 - c)" by arith
  then show "((n, 2 * d, 2 * q), n, d, q) \<in> measure (\<lambda>(n, d, q). nat (n + 1 - two53 * d))"
    by (simp add: c_def)
qed

definition roundHalfEven :: "int \<Rightarrow> int \<Rightarrow> int" where
  "roundHalfEven n d =
     (let q = n div d; r = n mod d
      in if 2 * r < d then q else if d < 2 * r then q + 1 else if even q then q else q + 1)"

definition toDouble :: "int \<Rightarrow> int \<Rightarrow> int \<times> int" where
  "toDouble n d =
     (case scaleUp n d 1 of (n1, p) \<Rightarrow>
        (case scaleDown n1 d 1 of (d1, q) \<Rightarrow> (roundHalfEven n1 d1 * q, p)))"

definition mathRound :: "int \<times> int \<Rightarrow> int" where
  "mathRound x = (2 * fst x + snd x) div (2 * snd x)"

definition riskPercentage :: "PrefixHealth \<Rightarrow> nat" where
  "riskPercentage health =
     (if totalPatterns health > 0
      then (case toDouble (int (riskyCount health)) (int (totalPatterns health)) of
              (a, b) \<Rightarrow> nat (mathRound (toDouble (100 * a) b)))
      else 0)"

definition healthLines :: "PrefixHealth \<Rightarrow> line list" where
  "healthLines health =
     (let st = (if riskyCount health = 0 then Healthy
                else if safePatterns health = 0 then Critical else Mixed)
      in HealthEntry st (prefix health) (safePatterns health) (totalPatterns health)
           (riskPercentage health)
         # (if riskyCount health > 0
            then [HealthRisky (join '', '' (take 3 (riskyList health))
                               @ (if length (riskyList health) > 3 then ''...'' else []))]
            else []))"

definition reportPrefixHealth :: "healthMap \<Rightarrow> bool \<Rightarrow> line list" where
  "reportPrefixHealth prefixHealth js =
     (if js then []
      else [HealthHeader, HealthRule]
           @ concat (map healthLines
                       (sort_key (\<lambda>h. - int (totalPatterns h)) (map snd prefixHealth)))
           @ [Blank])"

definition warningLines :: "Finding list \<Rightarrow> string list \<Rightarrow> line list" where
  "warningLines findings explicitPrefixes =
     FoundIssues (length findings)
     # concat (map (\<lambda>f. FileLine (file f) # map RiskyLine (riskyPatterns f)) findings)
     @ (if length explicitPrefixes > 0 then [ExpectedSafe explicitPrefixes] else [])"

definition auditAutoApprove :: "Opts \<Rightarrow> (string \<times> json option) list \<Rightarrow> Outcome" where
  "auditAutoApprove opts settingsFiles =
     (let explicitPrefixes = explicitPrefixesOf opts;
          st = ingestFiles explicitPrefixes settingsFiles;
          findings = fst st;
          prefixHealth = snd st;
          out1 = (if flag (scanPrefixes opts) \<or> \<not> given (allowPrefix opts)
                  then reportPrefixHealth prefixHealth (json opts) else []);
          out2 = (if json opts then [JsonDocument findings explicitPrefixes prefixHealth]
                  else if length findings = 0
                  then (if \<not> flag (silent opts) then [AllSafe explicitPrefixes] else [])
                  else (let shouldShowWarnings = (\<not> flag (silent opts) \<or> failOnRisk opts)
                        in if shouldShowWarnings then warningLines findings explicitPrefixes
                           else []))
      in \<lparr> printed = out1 @ out2,
           exitCall = (if length findings \<noteq> 0 \<and> failOnRisk opts then Some 1 else None) \<rparr>)"

text \<open>The code the process ends with: that of the \<open>exit\<close> call, or 0 when the function returns.\<close>

definition exitCode :: "Outcome \<Rightarrow> nat" where
  "exitCode r = (case exitCall r of Some c \<Rightarrow> c | None \<Rightarrow> 0)"

subsection \<open>The earlier version of the loop\<close>

text \<open>
  The repository also holds the earlier version of the command, whose loop over the rule
  map has no health records and no taxonomy: a boolean entry is risky when it is enabled
  and the allow template rejects it. Its \<open>buildSafeTemplate\<close> is the same function.
\<close>

fun ingestEntryEarlier ::
  "string list \<Rightarrow> string list \<times> string list \<Rightarrow> string \<times> json \<Rightarrow> string list \<times> string list" where
  "ingestEntryEarlier prefixes (risky, nonBool) (pattern, JBool val) =
     (if val = True \<and> \<not> test (buildSafeTemplate prefixes) pattern
      then (risky @ [pattern], nonBool)
      else (risky, nonBool))"
| "ingestEntryEarlier prefixes (risky, nonBool) (pattern, val) = (risky, nonBool @ [pattern])"

section \<open>Notions the properties are stated with\<close>

subsection \<open>The language of an expression without anchors\<close>

inductive_set star :: "string set \<Rightarrow> string set" for L :: "string set" where
  star_nil: "[] \<in> star L"
| star_app: "u \<in> L \<Longrightarrow> v \<in> star L \<Longrightarrow> u @ v \<in> star L"

fun plain :: "regex \<Rightarrow> bool" where
  "plain (Seq a b) = (plain a \<and> plain b)"
| "plain (Alt a b) = (plain a \<and> plain b)"
| "plain (Star a) = plain a"
| "plain Bol = False"
| "plain Eol = False"
| "plain r = True"

fun lang :: "regex \<Rightarrow> string set" where
  "lang Eps = {[]}"
| "lang (Lit c) = {[c]}"
| "lang Dot = {[x] | x. \<not> isLineTerminator x}"
| "lang WS = {[x] | x. isWhiteSpace x}"
| "lang (Cls rs) = {[x] | x. list_ex (inRange x) rs}"
| "lang (Seq a b) = {u @ v | u v. u \<in> lang a \<and> v \<in> lang b}"
| "lang (Alt a b) = lang a \<union> lang b"
| "lang (Star a) = star (lang a)"
| "lang Bol = {}"
| "lang Eol = {}"

text \<open>
  A pattern contains the removal command in the one spelling the check looks for:
  the letters \<open>rm\<close>, at least one white-space character, the flag \<open>-rf\<close>.
\<close>

definition containsRmRf :: "string \<Rightarrow> bool" where
  "containsRmRf p =
     (\<exists>pre ws post. p = pre @ ''rm'' @ ws @ ''-rf'' @ post
        \<and> ws \<noteq> [] \<and> (\<forall>c \<in> set ws. isWhiteSpace c))"

subsection \<open>Quotes that a backslash does not escape\<close>

text \<open>
  The count of single quotes as the specification words it: a backslash takes the
  special meaning from the character after it, so a quote behind a backslash is not
  counted.
\<close>

fun unescapedSingleQuotes :: "string \<Rightarrow> nat" where
  "unescapedSingleQuotes [] = 0"
| "unescapedSingleQuotes (c # cs) =
     (if c = CHR 0x5C then (case cs of [] \<Rightarrow> 0 | d # ds \<Rightarrow> unescapedSingleQuotes ds)
      else (if c = CHR 0x27 then 1 else 0) + unescapedSingleQuotes cs)"

subsection \<open>Files and their rules\<close>

definition healthOk :: "PrefixHealth \<Rightarrow> bool" where
  "healthOk h =
     (riskyCount h + safePatterns h = totalPatterns h \<and> length (patterns h) = totalPatterns h)"

definition isBoolean :: "json \<Rightarrow> bool" where
  "isBoolean v = (case v of JBool b \<Rightarrow> True | _ \<Rightarrow> False)"

text \<open>
  The specification judges a rule only when it is enabled: a file has a risky rule when
  one of its entries has the value \<open>true\<close> and a pattern that the classifier calls
  risky. A file is flagged when it has a risky rule or an entry whose value is not a
  boolean.
\<close>

definition hasRiskyRule :: "string list \<Rightarrow> (string \<times> json) list \<Rightarrow> bool" where
  "hasRiskyRule A m = (\<exists>e \<in> set m. snd e = JBool True \<and> isRisky A (fst e))"

definition hasNonBoolean :: "(string \<times> json) list \<Rightarrow> bool" where
  "hasNonBoolean m = (\<exists>e \<in> set m. \<not> isBoolean (snd e))"

definition flaggedFile :: "string list \<Rightarrow> string \<times> json option \<Rightarrow> bool" where
  "flaggedFile A fl =
     (case ruleMap (snd fl) of None \<Rightarrow> False | Some m \<Rightarrow> hasRiskyRule A m \<or> hasNonBoolean m)"

text \<open>
  What the loop goes by instead: an entry with a boolean value, \<open>true\<close> or \<open>false\<close>,
  whose pattern the classifier calls risky.
\<close>

definition hasRiskyEntry :: "string list \<Rightarrow> (string \<times> json) list \<Rightarrow> bool" where
  "hasRiskyEntry A m = (\<exists>e \<in> set m. isBoolean (snd e) \<and> isRisky A (fst e))"

definition reportedFile :: "string list \<Rightarrow> string \<times> json option \<Rightarrow> bool" where
  "reportedFile A fl =
     (case ruleMap (snd fl) of None \<Rightarrow> False | Some m \<Rightarrow> hasRiskyEntry A m \<or> hasNonBoolean m)"

text \<open>
  A parsed document has no rules when the \<open>chat.tools.terminal.autoApprove\<close> member is
  absent, is an empty object, or is anything that is not an object: null, a boolean, a
  number, a string, an array.
\<close>

definition noRules :: "json \<Rightarrow> bool" where
  "noRules d =
     (case member d ''chat.tools.terminal.autoApprove'' of
        None \<Rightarrow> True
      | Some (JObject m) \<Rightarrow> m = []
      | Some other \<Rightarrow> True)"

subsection \<open>Example inputs\<close>

definition rulesFile :: "string \<Rightarrow> (string \<times> json) list \<Rightarrow> string \<times> json option" where
  "rulesFile f m = (f, Some (JObject [(''chat.tools.terminal.autoApprove'', JObject m)]))"

definition mixedBatch :: "(string \<times> json option) list" where
  "mixedBatch =
     [ rulesFile ''a/.vscode/settings.json'' [('':tachyon-build'', JBool True), (''sudo'', JBool True)],
       (''b/.vscode/settings.json'', None),
       rulesFile ''c/.vscode/settings.json'' [('':tachyon-test'', JBool True), ('':note'', JString ''x'')],
       rulesFile ''d/.vscode/settings.json'' [('':tachyon-lint'', JBool True)],
       (''e/.vscode/settings.json'',
        Some (JObject [(''chat.tools.terminal.autoApprove'', JArray [JString '':tachyon-x''])])) ]"

definition scenarioD :: "(string \<times> json option) list" where
  "scenarioD =
     [ rulesFile ''/test/.vscode/settings.json''
         [('':bad:rm -rf /'', JBool True), ('':bad:rm -rf *'', JBool True)] ]"

definition optsD :: Opts where
  "optsD = \<lparr> allowPrefix = None, failOnRisk = False, json = False, silent = Some False,
              scanPrefixes = Some True \<rparr>"

definition optsSilentFail :: Opts where
  "optsSilentFail = \<lparr> allowPrefix = Some ''safe'', failOnRisk = True, json = False,
                       silent = Some True, scanPrefixes = None \<rparr>"

definition optsJsonFail :: Opts where
  "optsJsonFail = \<lparr> allowPrefix = None, failOnRisk = True, json = True, silent = Some True,
                     scanPrefixes = None \<rparr>"

definition riskyTaskFile :: "(string \<times> json option) list" where
  "riskyTaskFile = [ rulesFile ''/test/.vscode/settings.json'' [('':risky:task'', JBool True)] ]"

definition sudoFile :: "bool \<Rightarrow> (string \<times> json option) list" where
  "sudoFile enabled = [ rulesFile ''s.json'' [(''sudo'', JBool enabled)] ]"

section \<open>The matcher decides the language\<close>

lemma star_step:
  "w \<in> star L \<Longrightarrow> w = [] \<or> (\<exists>u v. w = u @ v \<and> u \<noteq> [] \<and> u \<in> L \<and> v \<in> star L)"
proof (induction rule: star.induct)
  case star_nil
  show ?case by simp
next
  case (star_app u v)
  show ?case
  proof (cases "u = []")
    case True
    with star_app.IH show ?thesis by simp
  next
    case False
    with star_app.hyps show ?thesis by blast
  qed
qed

lemma step1_defined:
  "(step1 P s k \<noteq> None) = (\<exists>x v. s = x # v \<and> P x \<and> k v \<noteq> None)"
  by (cases s) (auto simp: step1_def)

lemma single_front:
  "(\<exists>u v. s = u @ v \<and> u \<in> {[x] | x. P x} \<and> Q v) = (\<exists>x v. s = x # v \<and> P x \<and> Q v)"
proof
  assume "\<exists>u v. s = u @ v \<and> u \<in> {[x] | x. P x} \<and> Q v"
  then obtain x v where "s = [x] @ v" "P x" "Q v" by blast
  then show "\<exists>x v. s = x # v \<and> P x \<and> Q v" by simp
next
  assume "\<exists>x v. s = x # v \<and> P x \<and> Q v"
  then obtain x v where "s = [x] @ v" "P x" "Q v" by auto
  then show "\<exists>u v. s = u @ v \<and> u \<in> {[x] | x. P x} \<and> Q v" by blast
qed

text \<open>
  Repetition: by induction on the length of the input, since every round that counts
  makes the input shorter.
\<close>

lemma rmatch_star:
  assumes body: "\<And>s (k :: string \<Rightarrow> 'a option).
            (rmatch n a s k \<noteq> None) = (\<exists>u v. s = u @ v \<and> u \<in> lang a \<and> k v \<noteq> None)"
  shows "(rmatch n (Star a) s (k :: string \<Rightarrow> 'a option) \<noteq> None)
         = (\<exists>u v. s = u @ v \<and> u \<in> star (lang a) \<and> k v \<noteq> None)"
proof (induction s rule: length_induct)
  case (1 s)
  let ?K = "\<lambda>s'. if length s' < length s then rmatch n (Star a) s' k else None"
  have unfold: "(rmatch n (Star a) s k \<noteq> None) = (rmatch n a s ?K \<noteq> None \<or> k s \<noteq> None)"
    by (simp split: option.splits)
  show ?case
  proof
    assume "rmatch n (Star a) s k \<noteq> None"
    with unfold consider "rmatch n a s ?K \<noteq> None" | "k s \<noteq> None" by blast
    then show "\<exists>u v. s = u @ v \<and> u \<in> star (lang a) \<and> k v \<noteq> None"
    proof cases
      case 1
      then obtain u v where uv: "s = u @ v" "u \<in> lang a" "?K v \<noteq> None"
        unfolding body by blast
      from uv(3) have short: "length v < length s" and "rmatch n (Star a) v k \<noteq> None"
        by (auto split: if_splits)
      with "1.IH" obtain w x where wx: "v = w @ x" "w \<in> star (lang a)" "k x \<noteq> None"
        by blast
      have "s = (u @ w) @ x" using uv(1) wx(1) by simp
      moreover have "u @ w \<in> star (lang a)" using uv(2) wx(2) by (rule star_app)
      ultimately show ?thesis using wx(3) by blast
    next
      case 2
      have "s = [] @ s" by simp
      then show ?thesis using 2 star_nil by blast
    qed
  next
    assume "\<exists>u v. s = u @ v \<and> u \<in> star (lang a) \<and> k v \<noteq> None"
    then obtain w x where wx: "s = w @ x" "w \<in> star (lang a)" "k x \<noteq> None" by blast
    from star_step[OF wx(2)] show "rmatch n (Star a) s k \<noteq> None"
    proof
      assume "w = []"
      with wx show ?thesis unfolding unfold by simp
    next
      assume "\<exists>u v. w = u @ v \<and> u \<noteq> [] \<and> u \<in> lang a \<and> v \<in> star (lang a)"
      then obtain u v where uv: "w = u @ v" "u \<noteq> []" "u \<in> lang a" "v \<in> star (lang a)"
        by blast
      have short: "length (v @ x) < length s" using wx(1) uv(1,2) by simp
      with "1.IH" uv(4) wx(3) have "rmatch n (Star a) (v @ x) k \<noteq> None" by blast
      with short have "?K (v @ x) \<noteq> None" by simp
      moreover have "s = u @ (v @ x)" using wx(1) uv(1) by simp
      ultimately have "rmatch n a s ?K \<noteq> None" unfolding body using uv(3) by blast
      then show ?thesis unfolding unfold by simp
    qed
  qed
qed

lemma rmatch_lang:
  "plain r \<Longrightarrow>
   (rmatch n r s (k :: string \<Rightarrow> 'a option) \<noteq> None)
   = (\<exists>u v. s = u @ v \<and> u \<in> lang r \<and> k v \<noteq> None)"
proof (induction r arbitrary: s k)
  case (Seq a b)
  then have a: "\<And>s (k :: string \<Rightarrow> 'a option).
      (rmatch n a s k \<noteq> None) = (\<exists>u v. s = u @ v \<and> u \<in> lang a \<and> k v \<noteq> None)"
    and b: "\<And>s (k :: string \<Rightarrow> 'a option).
      (rmatch n b s k \<noteq> None) = (\<exists>u v. s = u @ v \<and> u \<in> lang b \<and> k v \<noteq> None)"
    by simp_all
  show ?case
  proof
    assume "rmatch n (Seq a b) s k \<noteq> None"
    then have "rmatch n a s (\<lambda>s'. rmatch n b s' k) \<noteq> None" by simp
    then obtain u v where uv: "s = u @ v" "u \<in> lang a" "rmatch n b v k \<noteq> None"
      unfolding a by blast
    from uv(3) obtain w x where wx: "v = w @ x" "w \<in> lang b" "k x \<noteq> None"
      unfolding b by blast
    have "s = (u @ w) @ x" using uv(1) wx(1) by simp
    moreover have "u @ w \<in> lang (Seq a b)" using uv(2) wx(2) by auto
    ultimately show "\<exists>u v. s = u @ v \<and> u \<in> lang (Seq a b) \<and> k v \<noteq> None"
      using wx(3) by blast
  next
    assume "\<exists>u v. s = u @ v \<and> u \<in> lang (Seq a b) \<and> k v \<noteq> None"
    then obtain u w x where h: "s = (u @ w) @ x" "u \<in> lang a" "w \<in> lang b" "k x \<noteq> None"
      by auto
    then have "rmatch n b (w @ x) k \<noteq> None" unfolding b by blast
    moreover have "s = u @ (w @ x)" using h(1) by simp
    ultimately have "rmatch n a s (\<lambda>s'. rmatch n b s' k) \<noteq> None"
      unfolding a using h(2) by blast
    then show "rmatch n (Seq a b) s k \<noteq> None" by simp
  qed
next
  case (Alt a b)
  then have a: "(rmatch n a s k \<noteq> None) = (\<exists>u v. s = u @ v \<and> u \<in> lang a \<and> k v \<noteq> None)"
    and b: "(rmatch n b s k \<noteq> None) = (\<exists>u v. s = u @ v \<and> u \<in> lang b \<and> k v \<noteq> None)"
    by simp_all
  have "(rmatch n (Alt a b) s k \<noteq> None) = (rmatch n a s k \<noteq> None \<or> rmatch n b s k \<noteq> None)"
    by (simp split: option.splits)
  also have "\<dots> = (\<exists>u v. s = u @ v \<and> u \<in> lang (Alt a b) \<and> k v \<noteq> None)"
    unfolding a b by auto
  finally show ?case .
next
  case (Star a)
  then have "\<And>s (k :: string \<Rightarrow> 'a option).
      (rmatch n a s k \<noteq> None) = (\<exists>u v. s = u @ v \<and> u \<in> lang a \<and> k v \<noteq> None)"
    by simp
  from rmatch_star[OF this] show ?case by simp
next
  case Eps
  show ?case by (simp del: not_None_eq)
next
  case (Lit c)
  show ?case using single_front[of s "\<lambda>x. x = c" "\<lambda>v. k v \<noteq> None"]
    by (simp del: not_None_eq add: step1_defined)
next
  case Dot
  show ?case unfolding rmatch.simps lang.simps step1_defined single_front ..
next
  case WS
  show ?case unfolding rmatch.simps lang.simps step1_defined single_front ..
next
  case (Cls rs)
  show ?case unfolding rmatch.simps lang.simps step1_defined single_front ..
next
  case Bol
  then show ?case by simp
next
  case Eol
  then show ?case by simp
qed

lemma firstMatch_defined:
  "(firstMatch f s \<noteq> None) = (\<exists>pre t. s = pre @ t \<and> f t \<noteq> None)"
proof (induction s)
  case Nil
  then show ?case by (simp split: option.splits)
next
  case (Cons x xs)
  have "(firstMatch f (x # xs) \<noteq> None) = (f (x # xs) \<noteq> None \<or> firstMatch f xs \<noteq> None)"
    by (simp split: option.splits)
  also have "\<dots> = (f (x # xs) \<noteq> None \<or> (\<exists>pre t. xs = pre @ t \<and> f t \<noteq> None))"
    using Cons.IH by simp
  also have "\<dots> = (\<exists>pre t. x # xs = pre @ t \<and> f t \<noteq> None)"
  proof
    assume "f (x # xs) \<noteq> None \<or> (\<exists>pre t. xs = pre @ t \<and> f t \<noteq> None)"
    then show "\<exists>pre t. x # xs = pre @ t \<and> f t \<noteq> None"
    proof
      assume "f (x # xs) \<noteq> None"
      then have "x # xs = [] @ (x # xs) \<and> f (x # xs) \<noteq> None" by simp
      then show ?thesis by blast
    next
      assume "\<exists>pre t. xs = pre @ t \<and> f t \<noteq> None"
      then obtain pre t where "xs = pre @ t" "f t \<noteq> None" by blast
      then have "x # xs = (x # pre) @ t \<and> f t \<noteq> None" by simp
      then show ?thesis by blast
    qed
  next
    assume "\<exists>pre t. x # xs = pre @ t \<and> f t \<noteq> None"
    then obtain pre t where pt: "x # xs = pre @ t" "f t \<noteq> None" by blast
    show "f (x # xs) \<noteq> None \<or> (\<exists>pre t. xs = pre @ t \<and> f t \<noteq> None)"
    proof (cases pre)
      case Nil
      with pt show ?thesis by simp
    next
      case (Cons y ys)
      with pt have "xs = ys @ t" by simp
      with pt(2) show ?thesis by blast
    qed
  qed
  finally show ?case .
qed

lemma test_lang:
  assumes "plain r"
  shows "test r s = (\<exists>pre u post. s = pre @ u @ post \<and> u \<in> lang r)"
  unfolding test_def firstMatch_defined rmatch_lang[OF assms]
  by auto

lemma lang_str: "lang (str s) = {s}"
  by (induction s) auto

lemma star_chars:
  "star {[x] | x. P x} = {ws. \<forall>c \<in> set ws. P c}"
proof
  show "star {[x] | x. P x} \<subseteq> {ws. \<forall>c \<in> set ws. P c}"
  proof
    fix w assume "w \<in> star {[x] | x. P x}"
    then show "w \<in> {ws. \<forall>c \<in> set ws. P c}"
      by (induction rule: star.induct) auto
  qed
next
  show "{ws. \<forall>c \<in> set ws. P c} \<subseteq> star {[x] | x. P x}"
  proof
    fix w assume "w \<in> {ws. \<forall>c \<in> set ws. P c}"
    then have "\<forall>c \<in> set w. P c" by simp
    then show "w \<in> star {[x] | x. P x}"
    proof (induction w)
      case Nil
      show ?case by (rule star_nil)
    next
      case (Cons c w)
      then have "[c] \<in> {[x] | x. P x}" and "w \<in> star {[x] | x. P x}" by auto
      then have "[c] @ w \<in> star {[x] | x. P x}" by (rule star_app)
      then show ?case by simp
    qed
  qed
qed

lemma lang_rmRf:
  "lang rmRfRegex = {''rm'' @ ws @ ''-rf'' | ws. ws \<noteq> [] \<and> (\<forall>c \<in> set ws. isWhiteSpace c)}"
proof -
  have ws: "lang (OneOrMore WS) = {ws. ws \<noteq> [] \<and> (\<forall>c \<in> set ws. isWhiteSpace c)}"
  proof -
    have "lang (OneOrMore WS)
          = {u @ v | u v. u \<in> {[x] | x. isWhiteSpace x} \<and> v \<in> {ws. \<forall>c \<in> set ws. isWhiteSpace c}}"
      by (simp add: OneOrMore_def star_chars)
    also have "\<dots> = {[x] @ v | x v. isWhiteSpace x \<and> (\<forall>c \<in> set v. isWhiteSpace c)}"
      by blast
    also have "\<dots> = {ws. ws \<noteq> [] \<and> (\<forall>c \<in> set ws. isWhiteSpace c)}"
    proof (rule set_eqI)
      fix w
      show "w \<in> {[x] @ v | x v. isWhiteSpace x \<and> (\<forall>c \<in> set v. isWhiteSpace c)}
            \<longleftrightarrow> w \<in> {ws. ws \<noteq> [] \<and> (\<forall>c \<in> set ws. isWhiteSpace c)}"
        by (cases w) auto
    qed
    finally show ?thesis .
  qed
  have "lang rmRfRegex
        = {u @ v @ w | u v w. u \<in> lang (str ''rm'') \<and> v \<in> lang (OneOrMore WS)
                              \<and> w \<in> lang (str ''-rf'')}"
    unfolding rmRfRegex_def by (simp del: str.simps) blast
  then show ?thesis unfolding lang_str ws by auto
qed

lemma plain_rmRf: "plain rmRfRegex"
  by (simp add: rmRfRegex_def OneOrMore_def)

lemma test_rmRf: "test rmRfRegex p = containsRmRf p"
  unfolding test_lang[OF plain_rmRf] lang_rmRf containsRmRf_def
proof
  assume "\<exists>pre u post. p = pre @ u @ post
            \<and> u \<in> {''rm'' @ ws @ ''-rf'' | ws. ws \<noteq> [] \<and> (\<forall>c \<in> set ws. isWhiteSpace c)}"
  then obtain pre ws post
    where "p = pre @ (''rm'' @ ws @ ''-rf'') @ post" "ws \<noteq> []" "\<forall>c \<in> set ws. isWhiteSpace c"
    by blast
  then have "p = pre @ ''rm'' @ ws @ ''-rf'' @ post \<and> ws \<noteq> [] \<and> (\<forall>c \<in> set ws. isWhiteSpace c)"
    by simp
  then show "\<exists>pre ws post. p = pre @ ''rm'' @ ws @ ''-rf'' @ post
               \<and> ws \<noteq> [] \<and> (\<forall>c \<in> set ws. isWhiteSpace c)"
    by blast
next
  assume "\<exists>pre ws post. p = pre @ ''rm'' @ ws @ ''-rf'' @ post
            \<and> ws \<noteq> [] \<and> (\<forall>c \<in> set ws. isWhiteSpace c)"
  then obtain pre ws post
    where h: "p = pre @ ''rm'' @ ws @ ''-rf'' @ post" "ws \<noteq> []" "\<forall>c \<in> set ws. isWhiteSpace c"
    by blast
  have "p = pre @ (''rm'' @ ws @ ''-rf'') @ post" using h(1) by simp
  with h(2,3) show "\<exists>pre u post. p = pre @ u @ post
          \<and> u \<in> {''rm'' @ ws @ ''-rf'' | ws. ws \<noteq> [] \<and> (\<forall>c \<in> set ws. isWhiteSpace c)}"
    by blast
qed

section \<open>The classifier\<close>

lemma mapGet_mapSet_same: "mapGet (mapSet k v m) k = Some v"
  by (induction m) (auto simp: mapGet_def)

lemma mapSet_pred:
  "\<forall>e \<in> set m. Q (snd e) \<Longrightarrow> Q v \<Longrightarrow> \<forall>e \<in> set (mapSet k v m). Q (snd e)"
  by (induction m) (force split: if_splits)+

lemma mapGet_in_set: "mapGet m k = Some h \<Longrightarrow> (k, h) \<in> set m"
  by (simp add: mapGet_def map_of_SomeD)

lemma ingestEntry_bool:
  "ingestEntry A (risky, nb, ph) (p, JBool b) =
     (let h0 = (case mapGet ph (prefixOf p) of Some h \<Rightarrow> h | None \<Rightarrow> newHealth (prefixOf p));
          h1 = h0 \<lparr> totalPatterns := totalPatterns h0 + 1, patterns := patterns h0 @ [p] \<rparr>;
          sv = validatePatternSyntax p;
          risky1 = (if \<not> valid sv then risky @ [''syntax issues: '' @ join '', '' (issues sv)]
                    else risky)
      in if isRisky A p
         then (risky1 @ [p], nb,
               mapSet (prefixOf p)
                 (h1 \<lparr> riskyCount := riskyCount h1 + 1, riskyList := riskyList h1 @ [p] \<rparr>) ph)
         else (risky1, nb, mapSet (prefixOf p) (h1 \<lparr> safePatterns := safePatterns h1 + 1 \<rparr>) ph))"
  by (simp add: Let_def)

lemma ingestEntry_other:
  "\<not> isBoolean v \<Longrightarrow> ingestEntry A (risky, nb, ph) (p, v) = (risky, nb @ [p], ph)"
  by (cases v) (auto simp: isBoolean_def)

lemma isBoolean_JBool: "isBoolean v \<Longrightarrow> \<exists>b. v = JBool b"
  by (cases v) (auto simp: isBoolean_def)

lemma invalid_is_risky: "\<not> valid (validatePatternSyntax p) \<Longrightarrow> isRisky A p"
  by (simp add: isRisky_def)

lemma eval_unknown_task_risky: "isRisky [''tachyon''] '':unknown-task'' = True"
  by code_simp

lemma eval_unknown_task_template: "test (buildSafeTemplate [''tachyon'']) '':unknown-task'' = False"
  by code_simp

lemma eval_unknown_task_entry:
  "ingestEntry [''tachyon''] ([], [], []) ('':unknown-task'', JBool True)
   = (['':unknown-task''], [],
      [(''unknown'', \<lparr> prefix = ''unknown'', totalPatterns = 1, riskyCount = 1, safePatterns = 0,
                        patterns = ['':unknown-task''], riskyList = ['':unknown-task''] \<rparr>)])"
  by code_simp

text \<open>
  Claim C1. For a rule entry with a boolean value and any list \<open>A\<close> of allowed prefixes,
  the verdict is risky exactly when the pattern fails the syntax validation, or matches
  one of the expressions of the danger taxonomy, or is flagged by the removal check, or
  \<open>A\<close> is not empty and the allow template built from \<open>A\<close> does not match the pattern;
  with an empty \<open>A\<close> the template plays no part. The verdict is what the loop acts on:
  a risky pattern is appended to the file's risky list and counted as risky in the health
  record of its prefix, any other is counted as safe there and leaves the list as it was.
\<close>

theorem verdict_is_disjunction_of_checks:
  "(isRisky A p \<longleftrightarrow>
      (\<not> valid (validatePatternSyntax p)
       \<or> (\<exists>r \<in> set RISKY_PATTERNS. test r p)
       \<or> isDangerousRmRf p
       \<or> (A \<noteq> [] \<and> \<not> test (buildSafeTemplate A) p)))
   \<and> (let h0 = (case mapGet ph (prefixOf p) of Some h \<Rightarrow> h | None \<Rightarrow> newHealth (prefixOf p));
           acc = ingestEntry A (risky, nb, ph) (p, JBool b);
           h1 = mapGet (snd (snd acc)) (prefixOf p)
       in if isRisky A p
          then map_option riskyCount h1 = Some (riskyCount h0 + 1)
               \<and> map_option safePatterns h1 = Some (safePatterns h0)
               \<and> last (fst acc) = p
          else map_option riskyCount h1 = Some (riskyCount h0)
               \<and> map_option safePatterns h1 = Some (safePatterns h0 + 1)
               \<and> fst acc = risky)"
proof (rule conjI)
  show "isRisky A p \<longleftrightarrow>
      (\<not> valid (validatePatternSyntax p)
       \<or> (\<exists>r \<in> set RISKY_PATTERNS. test r p)
       \<or> isDangerousRmRf p
       \<or> (A \<noteq> [] \<and> \<not> test (buildSafeTemplate A) p))"
    by (auto simp: isRisky_def isRiskyPattern_def isAllowed_def list_ex_iff)
next
  show "let h0 = (case mapGet ph (prefixOf p) of Some h \<Rightarrow> h | None \<Rightarrow> newHealth (prefixOf p));
           acc = ingestEntry A (risky, nb, ph) (p, JBool b);
           h1 = mapGet (snd (snd acc)) (prefixOf p)
       in if isRisky A p
          then map_option riskyCount h1 = Some (riskyCount h0 + 1)
               \<and> map_option safePatterns h1 = Some (safePatterns h0)
               \<and> last (fst acc) = p
          else map_option riskyCount h1 = Some (riskyCount h0)
               \<and> map_option safePatterns h1 = Some (safePatterns h0 + 1)
               \<and> fst acc = risky"
  proof (cases "isRisky A p")
    case True
    then show ?thesis unfolding ingestEntry_bool by (simp add: Let_def mapGet_mapSet_same)
  next
    case False
    then have "valid (validatePatternSyntax p)" using invalid_is_risky by blast
    with False show ?thesis unfolding ingestEntry_bool by (simp add: Let_def mapGet_mapSet_same)
  qed
qed

theorem verdict_is_disjunction_of_checks_witness:
  "isRisky [''tachyon''] '':unknown-task''
   \<and> [''tachyon''] \<noteq> [] \<and> \<not> test (buildSafeTemplate [''tachyon'']) '':unknown-task''
   \<and> fst (ingestEntry [''tachyon''] ([], [], []) ('':unknown-task'', JBool True)) = ['':unknown-task'']"
  using verdict_is_disjunction_of_checks
          [of "[''tachyon'']" "'':unknown-task''" "[]" "[]" "[]" True]
        eval_unknown_task_risky eval_unknown_task_template eval_unknown_task_entry
  by simp

lemma ingestEntryEarlier_disabled: "ingestEntryEarlier A acc (p, JBool False) = acc"
  by (cases acc) simp

text \<open>
  Claim C2. An entry whose value is \<open>false\<close> is to be skipped: not classified, counted in
  no tally, part of no finding. The loop never looks at the value of a boolean entry, so
  a disabled entry is treated as the enabled one is: the disabled rule \<open>sudo\<close> gives a
  finding and a risky count. The earlier version of the loop leaves its lists as they
  were on a disabled entry (\<open>ingestEntryEarlier_disabled\<close>).
\<close>

theorem disabled_rule_is_classified:
  "ingestEntry A acc (p, JBool False) = ingestEntry A acc (p, JBool True)
   \<and> ingestFiles [] (sudoFile False)
      = ([\<lparr> file = ''s.json'', riskyPatterns = [''sudo''], nonBoolean = None \<rparr>],
         [(''unknown'', \<lparr> prefix = ''unknown'', totalPatterns = 1, riskyCount = 1, safePatterns = 0,
                           patterns = [''sudo''], riskyList = [''sudo''] \<rparr>)])"
proof
  show "ingestEntry A acc (p, JBool False) = ingestEntry A acc (p, JBool True)"
    by (cases acc) simp
next
  show "ingestFiles [] (sudoFile False)
      = ([\<lparr> file = ''s.json'', riskyPatterns = [''sudo''], nonBoolean = None \<rparr>],
         [(''unknown'', \<lparr> prefix = ''unknown'', totalPatterns = 1, riskyCount = 1, safePatterns = 0,
                           patterns = [''sudo''], riskyList = [''sudo''] \<rparr>)])"
    by code_simp
qed

text \<open>
  Claim C3, as amended. The validation counts every single quote of the pattern, escaped
  or not: a pattern with an odd number of single-quote characters is not valid, and its
  issues include the marker of the unterminated single quote.
\<close>

theorem odd_single_quotes_invalid:
  "odd (countChar (CHR 0x27) p) \<Longrightarrow>
   \<not> valid (validatePatternSyntax p)
   \<and> ''unterminated single quotes'' \<in> set (issues (validatePatternSyntax p))"
  by (simp add: validatePatternSyntax_def Let_def odd_iff_mod_2_eq_one)

theorem odd_single_quotes_invalid_witness:
  "odd (countChar (CHR 0x27) [CHR ''e'', CHR 0x27, CHR ''x''])
   \<and> \<not> valid (validatePatternSyntax [CHR ''e'', CHR 0x27, CHR ''x''])
   \<and> ''unterminated single quotes''
       \<in> set (issues (validatePatternSyntax [CHR ''e'', CHR 0x27, CHR ''x'']))"
proof -
  have h: "odd (countChar (CHR 0x27) [CHR ''e'', CHR 0x27, CHR ''x''])"
    by (simp add: countChar_def)
  from h odd_single_quotes_invalid [OF h] show ?thesis by simp
qed

text \<open>
  The claim as the specification states it fails: in the pattern made of a quote, a
  backslash and a quote, one quote is not escaped, and the validation finds nothing.
\<close>

theorem escaped_quote_counterexample:
  "odd (unescapedSingleQuotes [CHR 0x27, CHR 0x5C, CHR 0x27])
   \<and> valid (validatePatternSyntax [CHR 0x27, CHR 0x5C, CHR 0x27])"
  by code_simp

text \<open>
  Claim C4. A recursive forced removal of an absolute path is to be flagged whatever else
  the pattern holds. The expression for absolute paths is anchored at the start of the
  whole pattern, not of the argument, so the removal of \<open>/tmp\<close> is not flagged (the
  name \<open>tmp\<close> is a safe target), and with no allow list the classifier as a whole
  calls it safe (\<open>absolute_path_removal_passes_classifier\<close>).
\<close>

theorem absolute_path_removal_not_flagged:
  "isDangerousRmRf ''rm -rf /tmp'' = False
   \<and> isDangerousRmRf ''rm -rf /usr/local/build'' = False"
  by code_simp

lemma absolute_path_removal_passes_classifier: "isRisky [] ''rm -rf /tmp'' = False"
  by code_simp

text \<open>
  Claim C10. The removal check looks for one spelling only: a pattern that does not hold
  \<open>rm\<close>, white space and \<open>-rf\<close> in a row is never flagged by it, and so the
  removals spelled \<open>rm -fr /\<close> and \<open>rm -r -f /\<close> are not.
\<close>

theorem only_rm_rf_spelling_is_checked:
  "(\<not> containsRmRf p \<longrightarrow> isDangerousRmRf p = False)
   \<and> isDangerousRmRf ''rm -fr /'' = False
   \<and> isDangerousRmRf ''rm -r -f /'' = False"
proof (intro conjI impI)
  assume "\<not> containsRmRf p"
  then have "\<not> test rmRfRegex p" by (simp add: test_rmRf)
  then show "isDangerousRmRf p = False" by (simp add: isDangerousRmRf_def)
next
  show "isDangerousRmRf ''rm -fr /'' = False" by code_simp
next
  show "isDangerousRmRf ''rm -r -f /'' = False" by code_simp
qed

lemma eval_no_rmRf: "\<not> test rmRfRegex ''rm -fr /tmp/x''"
  by code_simp

theorem only_rm_rf_spelling_is_checked_witness:
  "\<not> containsRmRf ''rm -fr /tmp/x'' \<and> isDangerousRmRf ''rm -fr /tmp/x'' = False"
  using only_rm_rf_spelling_is_checked [of "''rm -fr /tmp/x''"] eval_no_rmRf
  by (simp add: test_rmRf)

section \<open>The aggregator\<close>

subsection \<open>The health records\<close>

lemma healthOk_start:
  assumes "\<forall>e \<in> set ph. healthOk (snd e)"
  shows "healthOk (case mapGet ph k of Some h \<Rightarrow> h | None \<Rightarrow> newHealth k)"
proof (cases "mapGet ph k")
  case None
  then show ?thesis by (simp add: healthOk_def newHealth_def)
next
  case (Some h)
  then have "(k, h) \<in> set ph" by (rule mapGet_in_set)
  with assms have "healthOk h" by fastforce
  with Some show ?thesis by simp
qed

lemma ingestEntry_healthOk:
  assumes "\<forall>e \<in> set ph. healthOk (snd e)"
  shows "\<forall>e \<in> set (snd (snd (ingestEntry A (risky, nb, ph) e0))). healthOk (snd e)"
proof (cases e0)
  case (Pair p v)
  show ?thesis
  proof (cases v)
    case (JBool b)
    define h0 where
      "h0 = (case mapGet ph (prefixOf p) of Some h \<Rightarrow> h | None \<Rightarrow> newHealth (prefixOf p))"
    have h0: "healthOk h0" unfolding h0_def using assms by (rule healthOk_start)
    have r: "healthOk (h0\<lparr>totalPatterns := totalPatterns h0 + 1, patterns := patterns h0 @ [p],
                riskyCount := riskyCount h0 + 1, riskyList := riskyList h0 @ [p]\<rparr>)"
      using h0 by (simp add: healthOk_def)
    have s: "healthOk (h0\<lparr>totalPatterns := totalPatterns h0 + 1, patterns := patterns h0 @ [p],
                safePatterns := safePatterns h0 + 1\<rparr>)"
      using h0 by (simp add: healthOk_def)
    show ?thesis
      unfolding Pair JBool
      using mapSet_pred[OF assms r] mapSet_pred[OF assms s]
      by (simp add: Let_def h0_def[symmetric])
  qed (use assms Pair in auto)
qed

lemma foldl_ingestEntry_healthOk:
  "\<forall>e \<in> set (snd (snd acc)). healthOk (snd e) \<Longrightarrow>
   \<forall>e \<in> set (snd (snd (foldl (ingestEntry A) acc m))). healthOk (snd e)"
proof (induction m arbitrary: acc)
  case Nil
  then show ?case by simp
next
  case (Cons e m)
  obtain r nb ph where acc: "acc = (r, nb, ph)" by (cases acc) auto
  from Cons.prems have "\<forall>x \<in> set (snd (snd (ingestEntry A acc e))). healthOk (snd x)"
    unfolding acc using ingestEntry_healthOk[of ph A r nb e] by simp
  then show ?case using Cons.IH by simp
qed

lemma ingestFile_healthOk:
  assumes "\<forall>e \<in> set (snd st). healthOk (snd e)"
  shows "\<forall>e \<in> set (snd (ingestFile A st fl)). healthOk (snd e)"
proof (cases "ruleMap (snd fl)")
  case None
  with assms show ?thesis by (simp add: ingestFile_def)
next
  case (Some m)
  obtain r nb ph where f: "foldl (ingestEntry A) ([], [], snd st) m = (r, nb, ph)"
    by (cases "foldl (ingestEntry A) ([], [], snd st) m") auto
  have "\<forall>e \<in> set (snd (snd (foldl (ingestEntry A) ([], [], snd st) m))). healthOk (snd e)"
    using assms by (intro foldl_ingestEntry_healthOk) simp
  then have "\<forall>e \<in> set ph. healthOk (snd e)" by (simp add: f)
  then show ?thesis
    by (simp add: ingestFile_def Some f split: option.splits)
qed

lemma foldl_ingestFile_healthOk:
  "\<forall>e \<in> set (snd st). healthOk (snd e) \<Longrightarrow>
   \<forall>e \<in> set (snd (foldl (ingestFile A) st fs)). healthOk (snd e)"
proof (induction fs arbitrary: st)
  case Nil
  then show ?case by simp
next
  case (Cons f fs)
  from Cons.prems have "\<forall>e \<in> set (snd (ingestFile A st f)). healthOk (snd e)"
    by (rule ingestFile_healthOk)
  then show ?case using Cons.IH by simp
qed

lemma eval_mixedBatch_health:
  "snd (ingestFiles [] mixedBatch) =
     [(''tachyon'', \<lparr> prefix = ''tachyon'', totalPatterns = 3, riskyCount = 0, safePatterns = 3,
                       patterns = ['':tachyon-build'', '':tachyon-test'', '':tachyon-lint''],
                       riskyList = [] \<rparr>),
      (''unknown'', \<lparr> prefix = ''unknown'', totalPatterns = 1, riskyCount = 1, safePatterns = 0,
                       patterns = [''sudo''], riskyList = [''sudo''] \<rparr>)]"
  by code_simp

text \<open>
  Claim C6. After any batch of settings files has been taken in, each record of the
  health map has as many risky and safe patterns together as it has patterns in total,
  and its list of patterns has that length.
\<close>

theorem prefix_health_invariant:
  "\<forall>e \<in> set (snd (ingestFiles explicitPrefixes settingsFiles)).
     riskyCount (snd e) + safePatterns (snd e) = totalPatterns (snd e)
     \<and> length (patterns (snd e)) = totalPatterns (snd e)"
  using foldl_ingestFile_healthOk[of "([], [])" explicitPrefixes settingsFiles]
  by (simp add: ingestFiles_def healthOk_def)

theorem prefix_health_invariant_witness:
  "map fst (snd (ingestFiles [] mixedBatch)) = [''tachyon'', ''unknown'']
   \<and> map (\<lambda>e. riskyCount (snd e) + safePatterns (snd e)) (snd (ingestFiles [] mixedBatch))
       = [3, 1]
   \<and> map (\<lambda>e. totalPatterns (snd e)) (snd (ingestFiles [] mixedBatch)) = [3, 1]
   \<and> map (\<lambda>e. length (patterns (snd e))) (snd (ingestFiles [] mixedBatch)) = [3, 1]"
  using prefix_health_invariant [of "[]" mixedBatch] eval_mixedBatch_health
  by simp

subsection \<open>The findings\<close>

lemma ingestEntry_risky_nonempty:
  "(fst (ingestEntry A (risky, nb, ph) (p, v)) \<noteq> [])
   = (risky \<noteq> [] \<or> (isBoolean v \<and> isRisky A p))"
proof (cases "isBoolean v")
  case True
  then obtain b where v: "v = JBool b" using isBoolean_JBool by blast
  show ?thesis unfolding v ingestEntry_bool using invalid_is_risky[of p A]
    by (auto simp: Let_def isBoolean_def)
next
  case False
  then show ?thesis by (simp add: ingestEntry_other)
qed

lemma ingestEntry_nonBool_nonempty:
  "(fst (snd (ingestEntry A (risky, nb, ph) (p, v))) \<noteq> []) = (nb \<noteq> [] \<or> \<not> isBoolean v)"
proof (cases "isBoolean v")
  case True
  then obtain b where v: "v = JBool b" using isBoolean_JBool by blast
  show ?thesis unfolding v ingestEntry_bool by (auto simp: Let_def isBoolean_def)
next
  case False
  then show ?thesis by (simp add: ingestEntry_other)
qed

lemma foldl_ingestEntry_lists:
  "(fst (foldl (ingestEntry A) acc m) \<noteq> []) = (fst acc \<noteq> [] \<or> hasRiskyEntry A m)
   \<and> (fst (snd (foldl (ingestEntry A) acc m)) \<noteq> []) = (fst (snd acc) \<noteq> [] \<or> hasNonBoolean m)"
proof (induction m arbitrary: acc)
  case Nil
  show ?case by (simp add: hasRiskyEntry_def hasNonBoolean_def)
next
  case (Cons e m)
  obtain r nb ph where acc: "acc = (r, nb, ph)" by (cases acc) auto
  obtain p v where e: "e = (p, v)" by (cases e) auto
  have r: "hasRiskyEntry A (e # m) = ((isBoolean v \<and> isRisky A p) \<or> hasRiskyEntry A m)"
    by (auto simp: hasRiskyEntry_def e)
  have n: "hasNonBoolean (e # m) = (\<not> isBoolean v \<or> hasNonBoolean m)"
    by (auto simp: hasNonBoolean_def e)
  show ?case
    using Cons.IH[of "ingestEntry A acc e"]
          ingestEntry_risky_nonempty[of A r nb ph p v]
          ingestEntry_nonBool_nonempty[of A r nb ph p v]
    unfolding r n by (simp add: acc e del: ingestEntry.simps) blast
qed

lemma ingestFile_files:
  "map file (fst (ingestFile A st fl))
   = map file (fst st) @ (if reportedFile A fl then [fst fl] else [])"
proof (cases "ruleMap (snd fl)")
  case None
  then show ?thesis by (simp add: ingestFile_def reportedFile_def)
next
  case (Some m)
  obtain r nb ph where f: "foldl (ingestEntry A) ([], [], snd st) m = (r, nb, ph)"
    by (cases "foldl (ingestEntry A) ([], [], snd st) m") auto
  have "(r \<noteq> []) = hasRiskyEntry A m" "(nb \<noteq> []) = hasNonBoolean m"
    using foldl_ingestEntry_lists[of A "([], [], snd st)" m] by (simp_all add: f)
  then show ?thesis
    by (auto simp: ingestFile_def reportedFile_def Some f makeFinding_def)
qed

lemma foldl_ingestFile_files:
  "map file (fst (foldl (ingestFile A) st fls))
   = map file (fst st) @ map fst (filter (reportedFile A) fls)"
proof (induction fls arbitrary: st)
  case Nil
  show ?case by simp
next
  case (Cons fl fls)
  show ?case using Cons.IH[of "ingestFile A st fl"] ingestFile_files[of A st fl] by simp
qed

text \<open>
  What the loop does: the files of the findings are, in the order of the batch, the files
  with a boolean entry of a risky pattern, enabled or not, or with an entry that is not a
  boolean.
\<close>

lemma findings_of_batch:
  "map file (fst (ingestFiles A settingsFiles)) = map fst (filter (reportedFile A) settingsFiles)"
  using foldl_ingestFile_files[of A "([], [])" settingsFiles] by (simp add: ingestFiles_def)

text \<open>
  Every flagged file is among them; and where no boolean entry is disabled, the two
  notions are one.
\<close>

lemma hasRiskyRule_hasRiskyEntry: "hasRiskyRule A m \<Longrightarrow> hasRiskyEntry A m"
proof -
  assume "hasRiskyRule A m"
  then obtain e where e: "e \<in> set m" "snd e = JBool True" "isRisky A (fst e)"
    by (auto simp: hasRiskyRule_def)
  from e(2) have "isBoolean (snd e)" by (simp add: isBoolean_def)
  with e(1,3) show "hasRiskyEntry A m" unfolding hasRiskyEntry_def by blast
qed

lemma flagged_is_reported: "flaggedFile A fl \<Longrightarrow> reportedFile A fl"
  by (auto simp: flaggedFile_def reportedFile_def split: option.splits
           dest: hasRiskyRule_hasRiskyEntry)

lemma no_disabled_entry:
  assumes "\<forall>e \<in> set m. snd e \<noteq> JBool False"
  shows "hasRiskyEntry A m = hasRiskyRule A m"
proof
  assume "hasRiskyEntry A m"
  then obtain e where e: "e \<in> set m" "isBoolean (snd e)" "isRisky A (fst e)"
    by (auto simp: hasRiskyEntry_def)
  from e(2) obtain b where b: "snd e = JBool b" using isBoolean_JBool by blast
  with assms e(1) have "b" by (cases b) auto
  with b e(1,3) show "hasRiskyRule A m" by (auto simp: hasRiskyRule_def)
next
  assume "hasRiskyRule A m"
  then show "hasRiskyEntry A m" by (rule hasRiskyRule_hasRiskyEntry)
qed

text \<open>
  A file that could not be loaded, and a document whose rule map is absent, empty or not
  an object, is not flagged, gets no finding and leaves the state of the audit as it was.
\<close>

lemma noRules_ruleMap: "noRules d \<Longrightarrow> ruleMap (Some d) = None \<or> ruleMap (Some d) = Some []"
  by (auto simp: noRules_def ruleMap_def split: option.splits json.splits)

lemma no_rules_no_finding:
  "noRules d \<Longrightarrow> \<not> flaggedFile A (f, Some d) \<and> ingestFile A st (f, Some d) = st"
  using noRules_ruleMap[of d]
  by (auto simp: flaggedFile_def hasRiskyRule_def hasNonBoolean_def ingestFile_def makeFinding_def)

lemma unloaded_no_finding:
  "\<not> flaggedFile A (f, None) \<and> ingestFile A st (f, None) = st"
  by (simp add: flaggedFile_def ingestFile_def ruleMap_def)

text \<open>
  Claim C8. A file is to get a finding exactly when it is flagged: when it has a risky
  rule or an entry that is not a boolean. The loop does not look at the value of a
  boolean entry, so the file whose only entry is the disabled rule \<open>sudo\<close> has no risky
  rule and no entry that is not a boolean, and gets a finding all the same. It is the
  defect of claim C2, seen from the findings. The other direction of the claim holds
  (\<open>flagged_is_reported\<close> with \<open>findings_of_batch\<close>), and so does its part on the files
  without rules (\<open>no_rules_no_finding\<close>, \<open>unloaded_no_finding\<close>).
\<close>

theorem disabled_rule_alone_gives_finding:
  "hasRiskyRule [] [(''sudo'', JBool False)] = False
   \<and> hasNonBoolean [(''sudo'', JBool False)] = False
   \<and> flaggedFile [] (rulesFile ''s.json'' [(''sudo'', JBool False)]) = False
   \<and> fst (ingestFiles [] [rulesFile ''s.json'' [(''sudo'', JBool False)]])
       = [\<lparr> file = ''s.json'', riskyPatterns = [''sudo''], nonBoolean = None \<rparr>]"
proof (intro conjI)
  show "hasRiskyRule [] [(''sudo'', JBool False)] = False"
    by (simp add: hasRiskyRule_def)
next
  show "hasNonBoolean [(''sudo'', JBool False)] = False"
    by (simp add: hasNonBoolean_def isBoolean_def)
next
  show "flaggedFile [] (rulesFile ''s.json'' [(''sudo'', JBool False)]) = False"
    by (simp add: flaggedFile_def rulesFile_def ruleMap_def truthy_def member_def
                  hasRiskyRule_def hasNonBoolean_def isBoolean_def)
next
  show "fst (ingestFiles [] [rulesFile ''s.json'' [(''sudo'', JBool False)]])
       = [\<lparr> file = ''s.json'', riskyPatterns = [''sudo''], nonBoolean = None \<rparr>]"
    by code_simp
qed

text \<open>
  Claim C9. A rule whose pattern fails the syntax validation puts two strings on the
  risky list of its file: first the label that starts with \<open>syntax issues:\<close> and joins
  the issues with commas, then the pattern. So the risky patterns of a finding can hold
  a string that is no key of the rule map.
\<close>

theorem syntax_issue_adds_two_entries:
  "\<not> valid (validatePatternSyntax p) \<Longrightarrow>
   fst (ingestEntry A (risky, nb, ph) (p, JBool True))
     = risky @ [''syntax issues: '' @ join '', '' (issues (validatePatternSyntax p)), p]
   \<and> fst (ingestFile A ([], ph) (rulesFile f [(p, JBool True)]))
     = [\<lparr> file = f,
          riskyPatterns = [''syntax issues: '' @ join '', '' (issues (validatePatternSyntax p)), p],
          nonBoolean = None \<rparr>]"
  using invalid_is_risky[of p A]
  by (simp add: ingestFile_def ruleMap_def truthy_def member_def makeFinding_def Let_def
                rulesFile_def)

lemma eval_unbalanced:
  "validatePatternSyntax '':safe:echo (unbalanced''
   = \<lparr> valid = False, issues = [''unbalanced parentheses''] \<rparr>"
  by code_simp

theorem syntax_issue_adds_two_entries_witness:
  "\<not> valid (validatePatternSyntax '':safe:echo (unbalanced'')
   \<and> fst (ingestFile [''safe''] ([], []) (rulesFile ''s.json'' [('':safe:echo (unbalanced'', JBool True)]))
     = [\<lparr> file = ''s.json'',
          riskyPatterns = [''syntax issues: unbalanced parentheses'', '':safe:echo (unbalanced''],
          nonBoolean = None \<rparr>]"
proof -
  have h: "\<not> valid (validatePatternSyntax '':safe:echo (unbalanced'')"
    by (simp add: eval_unbalanced)
  from h syntax_issue_adds_two_entries
           [OF h, of "[''safe'']" "[]" "[]" "[]" "''s.json''"]
  show ?thesis by (simp add: eval_unbalanced)
qed

subsection \<open>The report\<close>

text \<open>
  Claim C5. With the two rules \<open>:bad:rm -rf /\<close> and \<open>:bad:rm -rf *\<close>, no allow prefix
  and the scan of prefixes asked for, the health report is to have an entry for
  \<open>bad\<close> with none of two patterns safe. The expression that extracts the prefix wants
  a hyphen behind the leading name, which neither pattern has, so both rules fall under
  \<open>unknown\<close>: the report has the line for \<open>unknown\<close> with 0 of 2 safe and 100 per cent
  risky, and the health map has no key \<open>bad\<close>.
\<close>

theorem scenario_D_reports_unknown:
  "printed (auditAutoApprove optsD scenarioD)
     = [HealthHeader, HealthRule, HealthEntry Critical ''unknown'' 0 2 100,
        HealthRisky '':bad:rm -rf /, :bad:rm -rf *'', Blank, FoundIssues 1,
        FileLine ''/test/.vscode/settings.json'', RiskyLine '':bad:rm -rf /'',
        RiskyLine '':bad:rm -rf *'']
   \<and> map fst (snd (ingestFiles [] scenarioD)) = [''unknown'']
   \<and> prefixMatch '':bad:rm -rf /'' = None"
  by code_simp

theorem scenario_D_reports_unknown_witness:
  "HealthEntry Critical ''unknown'' 0 2 100 \<in> set (printed (auditAutoApprove optsD scenarioD))
   \<and> HealthEntry Critical ''bad'' 0 2 100 \<notin> set (printed (auditAutoApprove optsD scenarioD))
   \<and> ''bad'' \<notin> set (map fst (snd (ingestFiles [] scenarioD)))"
  using scenario_D_reports_unknown by simp

text \<open>
  Claim C7, as amended. The process ends with code 1 exactly when there is a finding and
  the failure on risk was asked for, and with code 0 otherwise. When it ends with code 1
  and the output is not the JSON document, the line of each finding's file and the line
  of each of its risky patterns are printed, silent or not.
\<close>

theorem exit_code_and_warnings:
  "exitCode (auditAutoApprove opts settingsFiles)
     = (if fst (ingestFiles (explicitPrefixesOf opts) settingsFiles) \<noteq> [] \<and> failOnRisk opts
        then 1 else 0)
   \<and> (exitCode (auditAutoApprove opts settingsFiles) = 1 \<and> \<not> json opts \<longrightarrow>
        (\<forall>f \<in> set (fst (ingestFiles (explicitPrefixesOf opts) settingsFiles)).
           FileLine (file f) \<in> set (printed (auditAutoApprove opts settingsFiles))
           \<and> (\<forall>p \<in> set (riskyPatterns f).
                 RiskyLine p \<in> set (printed (auditAutoApprove opts settingsFiles)))))"
  by (auto simp: auditAutoApprove_def exitCode_def Let_def warningLines_def)

lemma eval_silent_fail:
  "auditAutoApprove optsSilentFail riskyTaskFile
   = \<lparr> printed = [FoundIssues 1, FileLine ''/test/.vscode/settings.json'',
                  RiskyLine '':risky:task'', ExpectedSafe [''safe'']],
       exitCall = Some 1 \<rparr>"
  by code_simp

lemma eval_silent_fail_findings:
  "fst (ingestFiles (explicitPrefixesOf optsSilentFail) riskyTaskFile)
   = [\<lparr> file = ''/test/.vscode/settings.json'', riskyPatterns = ['':risky:task''],
        nonBoolean = None \<rparr>]"
  by code_simp

theorem exit_code_and_warnings_witness:
  "exitCode (auditAutoApprove optsSilentFail riskyTaskFile) = 1
   \<and> \<not> json optsSilentFail \<and> silent optsSilentFail = Some True
   \<and> FileLine ''/test/.vscode/settings.json'' \<in> set (printed (auditAutoApprove optsSilentFail riskyTaskFile))
   \<and> RiskyLine '':risky:task'' \<in> set (printed (auditAutoApprove optsSilentFail riskyTaskFile))"
  using exit_code_and_warnings [of optsSilentFail riskyTaskFile]
        eval_silent_fail eval_silent_fail_findings
  by (simp add: exitCode_def optsSilentFail_def)

text \<open>
  The claim as the specification states it fails when the JSON document is asked for:
  the process ends with code 1, silent, and the only thing printed is the document.
\<close>

theorem json_mode_counterexample:
  "exitCode (auditAutoApprove optsJsonFail (sudoFile True)) = 1
   \<and> silent optsJsonFail = Some True
   \<and> fst (ingestFiles (explicitPrefixesOf optsJsonFail) (sudoFile True))
       = [\<lparr> file = ''s.json'', riskyPatterns = [''sudo''], nonBoolean = None \<rparr>]
   \<and> RiskyLine ''sudo'' \<notin> set (printed (auditAutoApprove optsJsonFail (sudoFile True)))"
  by code_simp

end
